theory Spec2Isabelle
  imports Main "HOL-Library.AList"
begin

section \<open>Data model of the text object\<close>

text \<open>
  The notebook works on the JSON object returned by
  \<^verbatim>\<open>GET editions/{editionId}/text-fragments/{textFragmentId}\<close>.
  A Python \<^verbatim>\<open>str\<close> is a sequence of Unicode code points, so it is modelled as a
  list of code points; the Hebrew letters of the transcriptions do not fit the 8-bit
  \<^typ>\<open>char\<close>. The literals of the source are ASCII and are written with \<open>py\<close>.
\<close>

type_synonym str = "nat list"

abbreviation py :: "string \<Rightarrow> str" where
  "py s \<equiv> map of_char s"

text \<open>
  Only the keys the code reads are kept, together with the identifier and the
  \<^verbatim>\<open>nextSignInterpretations\<close> of a sign interpretation. The key
  \<^verbatim>\<open>character\<close> is optional in the schema: \<open>None\<close> stands for a sign
  interpretation object without that key, \<open>Some c\<close> for one whose \<^verbatim>\<open>character\<close>
  is the string \<open>c\<close> (possibly empty).
\<close>

record attribute =
  attributeValueId :: int

record signInterpretation =
  signInterpretationId :: int
  character :: "str option"
  attributes :: "attribute list"
  nextSignInterpretations :: "int list"

record sign =
  signInterpretations :: "signInterpretation list"

record line =
  lineName :: str
  signs :: "sign list"

record textFragment =
  textFragmentName :: str
  lines :: "line list"

record textObject =
  textFragments :: "textFragment list"

text \<open>The only exception the two serializers can raise on such an object: a missing key.\<close>

datatype error = KeyError str

section \<open>Loops\<close>

text \<open>
  \<^verbatim>\<open>for x in xs: body\<close> over a state that the body updates; an exception raised by
  the body leaves the loop.
\<close>

fun for_each :: "('a \<Rightarrow> 's \<Rightarrow> error + 's) \<Rightarrow> 'a list \<Rightarrow> 's \<Rightarrow> error + 's" where
  "for_each body [] s = Inr s"
| "for_each body (x # xs) s =
     (case body x s of Inl e \<Rightarrow> Inl e | Inr s' \<Rightarrow> for_each body xs s')"

section \<open>Serializing the data to a string\<close>

text \<open>
  \<^verbatim>\<open>
  def readSigns(line, formattedString):
      for signs in line['signs']:
          for signInterpretation in signs['signInterpretations']:
              attributes = list(map(lambda x: x['attributeValueId'], signInterpretation['attributes']))
              if 20 not in attributes:
                  if 1 in attributes:
                      formattedString += signInterpretation['character']
                  elif 2 in attributes:
                      formattedString += " "
      return formattedString
  \<close>
  \<open>readSigns_body\<close> is the body of the inner loop.
\<close>

definition readSigns_body :: "signInterpretation \<Rightarrow> str \<Rightarrow> error + str" where
  "readSigns_body signInterpretation formattedString =
     (let attrs = map attributeValueId (attributes signInterpretation) in
      if 20 \<notin> set attrs then
        if 1 \<in> set attrs then
          (case character signInterpretation of
             None \<Rightarrow> Inl (KeyError (py ''character''))
           | Some c \<Rightarrow> Inr (formattedString @ c))
        else if 2 \<in> set attrs then Inr (formattedString @ py '' '')
        else Inr formattedString
      else Inr formattedString)"

definition readSigns :: "line \<Rightarrow> str \<Rightarrow> error + str" where
  "readSigns ln formattedString =
     for_each (\<lambda>sg. for_each readSigns_body (signInterpretations sg)) (signs ln) formattedString"

text \<open>
  \<^verbatim>\<open>
  def readLines(textFragment, formattedString):
      for line in textFragment['lines']:
          formattedString += f"line {line['lineName']}:\n"
          formattedString = readSigns(line, formattedString) + "\n"
      return formattedString
  \<close>
\<close>

definition readLines_body :: "line \<Rightarrow> str \<Rightarrow> error + str" where
  "readLines_body ln formattedString =
     (case readSigns ln (formattedString @ py ''line '' @ lineName ln @ py '':\<newline>'') of
        Inl e \<Rightarrow> Inl e
      | Inr s \<Rightarrow> Inr (s @ py ''\<newline>''))"

definition readLines :: "textFragment \<Rightarrow> str \<Rightarrow> error + str" where
  "readLines textFragment formattedString =
     for_each readLines_body (lines textFragment) formattedString"

text \<open>
  \<^verbatim>\<open>
  def readFragments(text):
      formattedString = ""
      for textFragment in text['textFragments']:
          formattedString += f"\nText fragment {textFragment['textFragmentName']}:\n"
          formattedString = readLines(textFragment, formattedString)
      return formattedString
  \<close>
\<close>

definition readFragments_body :: "textFragment \<Rightarrow> str \<Rightarrow> error + str" where
  "readFragments_body textFragment formattedString =
     readLines textFragment
       (formattedString @ py ''\<newline>Text fragment '' @ textFragmentName textFragment @ py '':\<newline>'')"

definition readFragments :: "textObject \<Rightarrow> error + str" where
  "readFragments text = for_each readFragments_body (textFragments text) []"

section \<open>Serializing the data to a simpler object\<close>

text \<open>
  A Python \<^verbatim>\<open>dict\<close> keeps its keys in insertion order and assigning to a key that is
  present keeps the key's place: an association list updated with \<open>AList.update\<close>.
  \<open>dict_append d k x\<close> is \<^verbatim>\<open>d[k].append(x)\<close>, which raises \<^verbatim>\<open>KeyError\<close> for a missing key.
\<close>

type_synonym lineObject = "(str \<times> str list) list"
type_synonym simplified = "(str \<times> lineObject list) list"

definition dict_append :: "(str \<times> 'v list) list \<Rightarrow> str \<Rightarrow> 'v \<Rightarrow> error + (str \<times> 'v list) list" where
  "dict_append d k x =
     (case map_of d k of
        None \<Rightarrow> Inl (KeyError k)
      | Some vs \<Rightarrow> Inr (AList.update k (vs @ [x]) d))"

text \<open>
  \<^verbatim>\<open>
  simplifiedTextObject = {}
  for textFragment in text['textFragments']:
      simplifiedTextObject[textFragment["textFragmentName"]] = []
      for line in textFragment['lines']:
          lineObject = {}
          lineObject[line['lineName']] = []
          for sign in line['signs']:
              for signInterpretation in sign['signInterpretations']:
                  attributes = list(map(lambda x: x['attributeValueId'], signInterpretation['attributes']))
                  if 20 not in attributes:
                      if 1 in attributes:
                          lineObject[line['lineName']].append(signInterpretation['character'])
                      elif 2 in attributes:
                          lineObject[line['lineName']].append(" ")
          simplifiedTextObject[textFragment["textFragmentName"]].append(lineObject)
  \<close>
  In \<^verbatim>\<open>lineObject[k].append(signInterpretation['character'])\<close> Python looks
  \<^verbatim>\<open>lineObject[k]\<close> up before it evaluates the argument.
\<close>

definition simplified_interp :: "line \<Rightarrow> signInterpretation \<Rightarrow> lineObject \<Rightarrow> error + lineObject" where
  "simplified_interp ln signInterpretation lineObject =
     (let attrs = map attributeValueId (attributes signInterpretation) in
      if 20 \<notin> set attrs then
        if 1 \<in> set attrs then
          (case map_of lineObject (lineName ln) of
             None \<Rightarrow> Inl (KeyError (lineName ln))
           | Some vs \<Rightarrow>
               (case character signInterpretation of
                  None \<Rightarrow> Inl (KeyError (py ''character''))
                | Some c \<Rightarrow> dict_append lineObject (lineName ln) c))
        else if 2 \<in> set attrs then dict_append lineObject (lineName ln) (py '' '')
        else Inr lineObject
      else Inr lineObject)"

definition simplified_line :: "line \<Rightarrow> error + lineObject" where
  "simplified_line ln =
     for_each (\<lambda>sg. for_each (simplified_interp ln) (signInterpretations sg)) (signs ln)
       (AList.update (lineName ln) [] [])"

definition simplified_line_step :: "textFragment \<Rightarrow> line \<Rightarrow> simplified \<Rightarrow> error + simplified" where
  "simplified_line_step textFragment ln simplifiedTextObject =
     (case simplified_line ln of
        Inl e \<Rightarrow> Inl e
      | Inr lineObject \<Rightarrow> dict_append simplifiedTextObject (textFragmentName textFragment) lineObject)"

definition simplified_fragment :: "textFragment \<Rightarrow> simplified \<Rightarrow> error + simplified" where
  "simplified_fragment textFragment simplifiedTextObject =
     for_each (simplified_line_step textFragment) (lines textFragment)
       (AList.update (textFragmentName textFragment) [] simplifiedTextObject)"

definition simplifiedTextObject :: "textObject \<Rightarrow> error + simplified" where
  "simplifiedTextObject text = for_each simplified_fragment (textFragments text) []"

section \<open>The serializers as the specification words them\<close>

text \<open>The sign interpretations of a line in the order in which the loops meet them.\<close>

definition interpretations :: "line \<Rightarrow> signInterpretation list" where
  "interpretations ln = concat (map signInterpretations (signs ln))"

definition attributeValueIds :: "signInterpretation \<Rightarrow> int list" where
  "attributeValueIds si = map attributeValueId (attributes si)"

text \<open>
  The default filter keeps an interpretation unless it is reconstructed (id 20). A kept
  interpretation classified LETTER (id 1) contributes its character, one classified SPACE
  (id 2) contributes one space, any other contributes nothing. The result is \<open>None\<close>
  where a character is asked for of an interpretation that has none.
\<close>

definition survives_spec :: "signInterpretation \<Rightarrow> bool" where
  "survives_spec si = (20 \<notin> set (attributeValueIds si))"

definition appended_spec :: "signInterpretation \<Rightarrow> str list option" where
  "appended_spec si =
     (if 1 \<in> set (attributeValueIds si) then map_option (\<lambda>c. [c]) (character si)
      else if 2 \<in> set (attributeValueIds si) then Some [py '' '']
      else Some [])"

definition line_chars_spec :: "line \<Rightarrow> str list option" where
  "line_chars_spec ln =
     map_option concat (those (map appended_spec (filter survives_spec (interpretations ln))))"

definition line_text_spec :: "line \<Rightarrow> str option" where
  "line_text_spec ln =
     map_option (\<lambda>cs. py ''line '' @ lineName ln @ py '':\<newline>'' @ concat cs @ py ''\<newline>'')
       (line_chars_spec ln)"

definition fragment_text_spec :: "textFragment \<Rightarrow> str option" where
  "fragment_text_spec textFragment =
     map_option
       (\<lambda>ls. py ''\<newline>Text fragment '' @ textFragmentName textFragment @ py '':\<newline>'' @ concat ls)
       (those (map line_text_spec (lines textFragment)))"

definition toPlainText_spec :: "textObject \<Rightarrow> str option" where
  "toPlainText_spec text = map_option concat (those (map fragment_text_spec (textFragments text)))"

text \<open>What an interpretation adds under the default filter: nothing when it is filtered out.\<close>

definition contribution :: "signInterpretation \<Rightarrow> str list option" where
  "contribution si = (if survives_spec si then appended_spec si else Some [])"

text \<open>
  The structured tree of a fragment: one mapping per line, from the line's name to the
  line's filtered characters, in the order of the lines.
\<close>

definition line_object_spec :: "line \<Rightarrow> lineObject option" where
  "line_object_spec ln = map_option (\<lambda>cs. [(lineName ln, cs)]) (line_chars_spec ln)"

definition fragment_lines_spec :: "textFragment \<Rightarrow> lineObject list option" where
  "fragment_lines_spec tf = those (map line_object_spec (lines tf))"

text \<open>Assigning key after key to a dictionary, and the text that a list of line mappings stands for.\<close>

definition put_all :: "(str \<times> 'v) list \<Rightarrow> (str \<times> 'v) list \<Rightarrow> (str \<times> 'v) list" where
  "put_all kvs d = fold (\<lambda>(k, v). AList.update k v) kvs d"

definition render_line_object :: "lineObject \<Rightarrow> str" where
  "render_line_object lo =
     concat (map (\<lambda>(name, cs). py ''line '' @ name @ py '':\<newline>'' @ concat cs @ py ''\<newline>'') lo)"

definition render_lines :: "lineObject list \<Rightarrow> str" where
  "render_lines los = concat (map render_line_object los)"

definition render_tree :: "simplified \<Rightarrow> str" where
  "render_tree tree =
     concat (map (\<lambda>(name, los). py ''\<newline>Text fragment '' @ name @ py '':\<newline>'' @ render_lines los)
       tree)"

text \<open>
  The default order of the specification: for each sign of the line, in the given order,
  its first listed interpretation.
\<close>

definition defaultOrder_spec :: "line \<Rightarrow> signInterpretation list" where
  "defaultOrder_spec ln = concat (map (\<lambda>sg. take 1 (signInterpretations sg)) (signs ln))"

text \<open>
  The attribute value ids of the table in the notebook: 1 to 15 and 17 to 40.
\<close>

definition recognized :: "int \<Rightarrow> bool" where
  "recognized a = ((1 \<le> a \<and> a \<le> 15) \<or> (17 \<le> a \<and> a \<le> 40))"

text \<open>
  The edges of a line's next-interpretation graph, and a cycle in it.
\<close>

definition next_edges :: "line \<Rightarrow> (int \<times> int) list" where
  "next_edges ln =
     concat (map (\<lambda>si. map (Pair (signInterpretationId si)) (nextSignInterpretations si))
       (interpretations ln))"

definition has_cycle :: "line \<Rightarrow> bool" where
  "has_cycle ln = (\<exists>x \<in> set (map fst (next_edges ln)). (x, x) \<in> (set (next_edges ln))\<^sup>+)"

section \<open>Rewriting the sign interpretations of a text object\<close>

definition on_lines :: "(line \<Rightarrow> line) \<Rightarrow> textObject \<Rightarrow> textObject" where
  "on_lines h text =
     text\<lparr>textFragments := map (\<lambda>tf. tf\<lparr>lines := map h (lines tf)\<rparr>) (textFragments text)\<rparr>"

definition map_sign :: "(signInterpretation \<Rightarrow> signInterpretation) \<Rightarrow> sign \<Rightarrow> sign" where
  "map_sign f sg = sg\<lparr>signInterpretations := map f (signInterpretations sg)\<rparr>"

definition map_line :: "(signInterpretation \<Rightarrow> signInterpretation) \<Rightarrow> line \<Rightarrow> line" where
  "map_line f ln = ln\<lparr>signs := map (map_sign f) (signs ln)\<rparr>"

definition map_text :: "(signInterpretation \<Rightarrow> signInterpretation) \<Rightarrow> textObject \<Rightarrow> textObject" where
  "map_text f = on_lines (map_line f)"

definition filter_sign :: "(signInterpretation \<Rightarrow> bool) \<Rightarrow> sign \<Rightarrow> sign" where
  "filter_sign P sg = sg\<lparr>signInterpretations := filter P (signInterpretations sg)\<rparr>"

definition filter_line :: "(signInterpretation \<Rightarrow> bool) \<Rightarrow> line \<Rightarrow> line" where
  "filter_line P ln = ln\<lparr>signs := map (filter_sign P) (signs ln)\<rparr>"

definition filter_text :: "(signInterpretation \<Rightarrow> bool) \<Rightarrow> textObject \<Rightarrow> textObject" where
  "filter_text P = on_lines (filter_line P)"

definition strip_unknown :: "signInterpretation \<Rightarrow> signInterpretation" where
  "strip_unknown si =
     si\<lparr>attributes := filter (\<lambda>a. recognized (attributeValueId a)) (attributes si)\<rparr>"

section \<open>Example objects\<close>

text \<open>
  The line of the specification's example. Three signs with one interpretation each: kaf
  (U+05DB) marked LETTER, an empty character marked SPACE, and lamed (U+05DC) marked LETTER
  and reconstructed.
\<close>

definition kaf_letter :: signInterpretation where
  "kaf_letter =
     \<lparr>signInterpretationId = 1, character = Some [1499],
      attributes = [\<lparr>attributeValueId = 1\<rparr>], nextSignInterpretations = [2]\<rparr>"

definition empty_space :: signInterpretation where
  "empty_space =
     \<lparr>signInterpretationId = 2, character = Some [],
      attributes = [\<lparr>attributeValueId = 2\<rparr>], nextSignInterpretations = [3]\<rparr>"

definition reconstructed_lamed :: signInterpretation where
  "reconstructed_lamed =
     \<lparr>signInterpretationId = 3, character = Some [1500],
      attributes = [\<lparr>attributeValueId = 1\<rparr>, \<lparr>attributeValueId = 20\<rparr>],
      nextSignInterpretations = []\<rparr>"

definition example_line :: line where
  "example_line =
     \<lparr>lineName = py ''1'',
      signs =
        [\<lparr>signInterpretations = [kaf_letter]\<rparr>,
         \<lparr>signInterpretations = [empty_space]\<rparr>,
         \<lparr>signInterpretations = [reconstructed_lamed]\<rparr>]\<rparr>"

definition example_text :: textObject where
  "example_text =
     \<lparr>textFragments = [\<lparr>textFragmentName = py ''frg. 1'', lines = [example_line]\<rparr>]\<rparr>"

text \<open>One sign read in two ways, he (U+05D4) or het (U+05D7), both marked LETTER.\<close>

definition ambiguous_line :: line where
  "ambiguous_line =
     \<lparr>lineName = py ''1'',
      signs =
        [\<lparr>signInterpretations =
            [\<lparr>signInterpretationId = 1, character = Some [1492],
              attributes = [\<lparr>attributeValueId = 1\<rparr>], nextSignInterpretations = []\<rparr>,
             \<lparr>signInterpretationId = 2, character = Some [1495],
              attributes = [\<lparr>attributeValueId = 1\<rparr>], nextSignInterpretations = []\<rparr>]\<rparr>]\<rparr>"

text \<open>A fragment of two lines named Col. I and Col. II; the second holds one alef (U+05D0).\<close>

definition alef_line :: line where
  "alef_line =
     \<lparr>lineName = py ''Col. II'',
      signs =
        [\<lparr>signInterpretations =
            [\<lparr>signInterpretationId = 4, character = Some [1488],
              attributes = [\<lparr>attributeValueId = 1\<rparr>], nextSignInterpretations = []\<rparr>]\<rparr>]\<rparr>"

definition columns_fragment :: textFragment where
  "columns_fragment =
     \<lparr>textFragmentName = py ''frg. 1'',
      lines = [example_line\<lparr>lineName := py ''Col. I''\<rparr>, alef_line]\<rparr>"

definition columns_text :: textObject where
  "columns_text = \<lparr>textFragments = [columns_fragment]\<rparr>"

text \<open>Two fragments of the same name A: the first holds the alef line, the second no line.\<close>

definition dup_text :: textObject where
  "dup_text =
     \<lparr>textFragments =
        [\<lparr>textFragmentName = py ''A'', lines = [alef_line]\<rparr>,
         \<lparr>textFragmentName = py ''A'', lines = []\<rparr>]\<rparr>"

text \<open>Two letters, alef and bet (U+05D1), each naming the other as its next interpretation.\<close>

definition cyclic_line :: line where
  "cyclic_line =
     \<lparr>lineName = py ''1'',
      signs =
        [\<lparr>signInterpretations =
            [\<lparr>signInterpretationId = 1, character = Some [1488],
              attributes = [\<lparr>attributeValueId = 1\<rparr>], nextSignInterpretations = [2]\<rparr>]\<rparr>,
         \<lparr>signInterpretations =
            [\<lparr>signInterpretationId = 2, character = Some [1489],
              attributes = [\<lparr>attributeValueId = 1\<rparr>], nextSignInterpretations = [1]\<rparr>]\<rparr>]\<rparr>"

definition cyclic_text :: textObject where
  "cyclic_text =
     \<lparr>textFragments = [\<lparr>textFragmentName = py ''frg. 1'', lines = [cyclic_line]\<rparr>]\<rparr>"

text \<open>
  An alef marked LETTER that also carries the id 99, which is not in the table, and an
  interpretation that carries nothing but the id 99.
\<close>

definition foreign_alef :: signInterpretation where
  "foreign_alef =
     \<lparr>signInterpretationId = 1, character = Some [1488],
      attributes = [\<lparr>attributeValueId = 99\<rparr>, \<lparr>attributeValueId = 1\<rparr>],
      nextSignInterpretations = []\<rparr>"

definition foreign_only :: signInterpretation where
  "foreign_only =
     \<lparr>signInterpretationId = 2, character = None,
      attributes = [\<lparr>attributeValueId = 99\<rparr>], nextSignInterpretations = []\<rparr>"

definition foreign_text :: textObject where
  "foreign_text =
     \<lparr>textFragments =
        [\<lparr>textFragmentName = py ''frg. 1'',
          lines =
            [\<lparr>lineName = py ''1'',
              signs = [\<lparr>signInterpretations = [foreign_alef]\<rparr>,
                       \<lparr>signInterpretations = [foreign_only]\<rparr>]\<rparr>]\<rparr>]\<rparr>"


section \<open>Auxiliary facts\<close>

subsection \<open>Loops and option lists\<close>

lemma for_each_append:
  "for_each body (xs @ ys) s =
     (case for_each body xs s of Inl e \<Rightarrow> Inl e | Inr s' \<Rightarrow> for_each body ys s')"
  by (induction xs arbitrary: s) (auto split: sum.splits)

lemma for_each_concat:
  "for_each (\<lambda>x. for_each body (f x)) xs s = for_each body (concat (map f xs)) s"
  by (induction xs arbitrary: s) (auto simp: for_each_append split: sum.splits)

lemma for_each_appending:
  assumes "\<And>x s. body x s = (case g x of None \<Rightarrow> Inl e | Some b \<Rightarrow> Inr (s @ concat b))"
  shows "for_each body xs s =
     (case those (map g xs) of None \<Rightarrow> Inl e | Some bs \<Rightarrow> Inr (s @ concat (concat bs)))"
  by (induction xs arbitrary: s) (auto simp: assms split: option.splits)

lemma concat_those_Cons:
  "map_option concat (map_option ((#) b) A) = map_option ((@) b) (map_option concat A)"
  by (cases A) simp_all

lemma append_Nil_option: "map_option ((@) []) A = A"
  by (cases A) simp_all

lemma those_filter_neutral:
  "map_option concat (those (map (\<lambda>x. if P x then g x else Some []) xs)) =
   map_option concat (those (map g (filter P xs)))"
proof (induction xs)
  case Nil
  show ?case by simp
next
  case (Cons a xs)
  show ?case
    using Cons.IH by (cases "g a") (simp_all add: concat_those_Cons append_Nil_option)
qed

lemma readSigns_body_contribution:
  "readSigns_body si s =
     (case contribution si of None \<Rightarrow> Inl (KeyError (py ''character'')) | Some b \<Rightarrow> Inr (s @ concat b))"
  by (auto simp: readSigns_body_def contribution_def survives_spec_def appended_spec_def
      attributeValueIds_def Let_def split: option.splits)

lemma contribution_chars:
  "map_option concat (those (map contribution (interpretations ln))) = line_chars_spec ln"
  unfolding contribution_def line_chars_spec_def by (rule those_filter_neutral)

lemma readSigns_chars:
  "readSigns ln s =
     (case line_chars_spec ln of None \<Rightarrow> Inl (KeyError (py ''character'')) | Some cs \<Rightarrow> Inr (s @ concat cs))"
proof -
  have "readSigns ln s = for_each readSigns_body (interpretations ln) s"
    by (simp add: readSigns_def interpretations_def for_each_concat)
  also have "\<dots> = (case those (map contribution (interpretations ln)) of
      None \<Rightarrow> Inl (KeyError (py ''character'')) | Some bs \<Rightarrow> Inr (s @ concat (concat bs)))"
    by (rule for_each_appending) (rule readSigns_body_contribution)
  also have "\<dots> = (case map_option concat (those (map contribution (interpretations ln))) of
      None \<Rightarrow> Inl (KeyError (py ''character'')) | Some cs \<Rightarrow> Inr (s @ concat cs))"
    by (simp split: option.splits)
  finally show ?thesis by (simp only: contribution_chars)
qed

lemma for_each_appending1:
  assumes "\<And>x s. body x s = (case g x of None \<Rightarrow> Inl e | Some b \<Rightarrow> Inr (s @ b))"
  shows "for_each body xs s =
     (case those (map g xs) of None \<Rightarrow> Inl e | Some bs \<Rightarrow> Inr (s @ concat bs))"
  by (induction xs arbitrary: s) (auto simp: assms split: option.splits)

lemma readLines_body_text:
  "readLines_body ln s =
     (case line_text_spec ln of None \<Rightarrow> Inl (KeyError (py ''character'')) | Some t \<Rightarrow> Inr (s @ t))"
  by (simp add: readLines_body_def readSigns_chars line_text_spec_def split: option.splits)

lemma readLines_text:
  "readLines tf s =
     (case those (map line_text_spec (lines tf)) of
        None \<Rightarrow> Inl (KeyError (py ''character'')) | Some ts \<Rightarrow> Inr (s @ concat ts))"
  unfolding readLines_def by (rule for_each_appending1) (rule readLines_body_text)

lemma readFragments_body_text:
  "readFragments_body tf s =
     (case fragment_text_spec tf of None \<Rightarrow> Inl (KeyError (py ''character'')) | Some t \<Rightarrow> Inr (s @ t))"
  by (simp add: readFragments_body_def readLines_text fragment_text_spec_def split: option.splits)

lemma readFragments_text:
  "readFragments text =
     (case toPlainText_spec text of None \<Rightarrow> Inl (KeyError (py ''character'')) | Some t \<Rightarrow> Inr t)"
proof -
  have "readFragments text =
     (case those (map fragment_text_spec (textFragments text)) of
        None \<Rightarrow> Inl (KeyError (py ''character'')) | Some ts \<Rightarrow> Inr ([] @ concat ts))"
    unfolding readFragments_def by (rule for_each_appending1) (rule readFragments_body_text)
  then show ?thesis
    by (simp add: toPlainText_spec_def split: option.splits)
qed

lemma simplified_interp_contribution:
  assumes "map_of lo (lineName ln) = Some vs"
  shows "simplified_interp ln si lo =
     (case contribution si of
        None \<Rightarrow> Inl (KeyError (py ''character''))
      | Some b \<Rightarrow> Inr (AList.update (lineName ln) (vs @ b) lo))"
  using assms
  by (auto simp: simplified_interp_def dict_append_def contribution_def survives_spec_def
      appended_spec_def attributeValueIds_def Let_def update_triv split: option.splits)

lemma simplified_interps_single:
  "for_each (simplified_interp ln) xs [(lineName ln, vs)] =
     (case those (map contribution xs) of
        None \<Rightarrow> Inl (KeyError (py ''character''))
      | Some bs \<Rightarrow> Inr [(lineName ln, vs @ concat bs)])"
proof (induction xs arbitrary: vs)
  case Nil
  show ?case by simp
next
  case (Cons si xs)
  have step: "simplified_interp ln si [(lineName ln, vs)] =
     (case contribution si of
        None \<Rightarrow> Inl (KeyError (py ''character''))
      | Some b \<Rightarrow> Inr [(lineName ln, vs @ b)])"
    by (simp add: simplified_interp_contribution [where vs = vs] split: option.splits)
  show ?case
    by (simp add: step Cons.IH split: option.splits)
qed

lemma simplified_line_chars:
  "simplified_line ln =
     (case line_chars_spec ln of
        None \<Rightarrow> Inl (KeyError (py ''character''))
      | Some cs \<Rightarrow> Inr [(lineName ln, cs)])"
proof -
  have "simplified_line ln = for_each (simplified_interp ln) (interpretations ln) [(lineName ln, [])]"
    by (simp add: simplified_line_def interpretations_def for_each_concat)
  then show ?thesis
    by (simp add: simplified_interps_single contribution_chars [symmetric] split: option.splits)
qed

lemma for_each_map: "for_each body (map h xs) s = for_each (\<lambda>x. body (h x)) xs s"
  by (induction xs arbitrary: s) (auto split: sum.splits)

lemma simplified_line_step_object:
  "simplified_line_step tf ln obj =
     (case line_object_spec ln of
        None \<Rightarrow> Inl (KeyError (py ''character''))
      | Some lo \<Rightarrow> dict_append obj (textFragmentName tf) lo)"
  by (simp add: simplified_line_step_def simplified_line_chars line_object_spec_def split: option.splits)

lemma simplified_lines_present:
  assumes "map_of obj (textFragmentName tf) = Some los"
  shows "for_each (simplified_line_step tf) lns obj =
     (case those (map line_object_spec lns) of
        None \<Rightarrow> Inl (KeyError (py ''character''))
      | Some los' \<Rightarrow> Inr (AList.update (textFragmentName tf) (los @ los') obj))"
  using assms
proof (induction lns arbitrary: obj los)
  case Nil
  then show ?case by (simp add: update_triv)
next
  case (Cons ln lns)
  show ?case
  proof (cases "line_object_spec ln")
    case None
    then show ?thesis by (simp add: simplified_line_step_object)
  next
    case (Some lo)
    let ?obj' = "AList.update (textFragmentName tf) (los @ [lo]) obj"
    have step: "simplified_line_step tf ln obj = Inr ?obj'"
      by (simp add: simplified_line_step_object Some dict_append_def Cons.prems)
    have "map_of ?obj' (textFragmentName tf) = Some (los @ [lo])"
      by (simp add: update_conv')
    from Cons.IH [OF this] show ?thesis
      by (simp add: step Some split: option.splits)
  qed
qed

lemma simplified_fragment_lines:
  "simplified_fragment tf obj =
     (case fragment_lines_spec tf of
        None \<Rightarrow> Inl (KeyError (py ''character''))
      | Some los \<Rightarrow> Inr (AList.update (textFragmentName tf) los obj))"
proof -
  have "map_of (AList.update (textFragmentName tf) [] obj) (textFragmentName tf) = Some []"
    by (simp add: update_conv')
  from simplified_lines_present [OF this] show ?thesis
    by (simp add: simplified_fragment_def fragment_lines_spec_def split: option.splits)
qed

lemma on_lines_plain:
  assumes "\<And>ln. lineName (h ln) = lineName ln" and "\<And>ln. line_chars_spec (h ln) = line_chars_spec ln"
  shows "readFragments (on_lines h text) = readFragments text"
proof -
  have l: "line_text_spec (h ln) = line_text_spec ln" for ln
    by (simp add: line_text_spec_def assms)
  have f: "fragment_text_spec (tf\<lparr>lines := map h (lines tf)\<rparr>) = fragment_text_spec tf" for tf
    by (simp add: fragment_text_spec_def comp_def l)
  have "toPlainText_spec (on_lines h text) = toPlainText_spec text"
    by (simp add: toPlainText_spec_def on_lines_def comp_def f)
  then show ?thesis by (simp add: readFragments_text)
qed

lemma on_lines_simplified:
  assumes "\<And>ln. lineName (h ln) = lineName ln" and "\<And>ln. line_chars_spec (h ln) = line_chars_spec ln"
  shows "simplifiedTextObject (on_lines h text) = simplifiedTextObject text"
proof -
  have l: "line_object_spec (h ln) = line_object_spec ln" for ln
    by (simp add: line_object_spec_def assms)
  have f: "fragment_lines_spec (tf\<lparr>lines := map h (lines tf)\<rparr>) = fragment_lines_spec tf" for tf
    by (simp add: fragment_lines_spec_def comp_def l)
  have "simplified_fragment (tf\<lparr>lines := map h (lines tf)\<rparr>) = simplified_fragment tf" for tf
    by (rule ext) (simp add: simplified_fragment_lines f split: option.splits)
  then show ?thesis
    by (simp add: simplifiedTextObject_def on_lines_def for_each_map)
qed

lemma map_text_on_lines: "map_text f = on_lines (map_line f)"
  by (simp add: map_text_def)

lemma filter_text_on_lines: "filter_text P = on_lines (filter_line P)"
  by (simp add: filter_text_def)

lemma interpretations_map_line: "interpretations (map_line f ln) = map f (interpretations ln)"
  by (simp add: interpretations_def map_line_def map_sign_def map_concat comp_def)

lemma interpretations_filter_line: "interpretations (filter_line P ln) = filter P (interpretations ln)"
  by (simp add: interpretations_def filter_line_def filter_sign_def filter_concat comp_def)

lemma line_chars_map_line:
  assumes "\<And>si. contribution (f si) = contribution si"
  shows "line_chars_spec (map_line f ln) = line_chars_spec ln"
  by (simp add: contribution_chars [symmetric] interpretations_map_line comp_def assms)

lemma line_chars_filter_line:
  assumes "\<And>si. \<not> P si \<Longrightarrow> contribution si = Some []"
  shows "line_chars_spec (filter_line P ln) = line_chars_spec ln"
proof -
  have "(\<lambda>si. if P si then contribution si else Some []) = contribution"
    by (rule ext) (simp add: assms)
  then show ?thesis
    using those_filter_neutral [of P contribution "interpretations ln"]
    by (simp add: contribution_chars [symmetric] interpretations_filter_line)
qed

lemma map_text_same:
  assumes "\<And>si. contribution (f si) = contribution si"
  shows "readFragments (map_text f text) = readFragments text"
    and "simplifiedTextObject (map_text f text) = simplifiedTextObject text"
  unfolding map_text_on_lines
  by (rule on_lines_plain on_lines_simplified; simp add: map_line_def line_chars_map_line [unfolded map_line_def] assms)+

lemma filter_text_same:
  assumes "\<And>si. \<not> P si \<Longrightarrow> contribution si = Some []"
  shows "readFragments (filter_text P text) = readFragments text"
    and "simplifiedTextObject (filter_text P text) = simplifiedTextObject text"
  unfolding filter_text_on_lines
  by (rule on_lines_plain on_lines_simplified; simp add: filter_line_def line_chars_filter_line [unfolded filter_line_def] assms)+

lemma contribution_strip_unknown: "contribution (strip_unknown si) = contribution si"
  by (auto simp: contribution_def survives_spec_def appended_spec_def attributeValueIds_def
      strip_unknown_def recognized_def)

lemma contribution_next:
  "contribution (si\<lparr>nextSignInterpretations := ns\<rparr>) = contribution si"
  by (simp add: contribution_def survives_spec_def appended_spec_def attributeValueIds_def)

lemma those_map_option:
  "those (map (\<lambda>x. map_option f (g x)) xs) = map_option (map f) (those (map g xs))"
  by (induction xs) (auto split: option.splits simp: option.map_comp comp_def)

lemma line_text_render: "line_text_spec ln = map_option render_line_object (line_object_spec ln)"
  by (simp add: line_text_spec_def line_object_spec_def render_line_object_def option.map_comp comp_def)

lemma readLines_render:
  "readLines tf s =
     (case fragment_lines_spec tf of
        None \<Rightarrow> Inl (KeyError (py ''character''))
      | Some los \<Rightarrow> Inr (s @ render_lines los))"
proof -
  have "those (map line_text_spec (lines tf)) = map_option (map render_line_object) (fragment_lines_spec tf)"
    unfolding fragment_lines_spec_def line_text_render by (rule those_map_option)
  then show ?thesis
    by (simp add: readLines_text render_lines_def split: option.splits)
qed

lemma line_object_keys: "line_object_spec ln = Some lo \<Longrightarrow> map fst lo = [lineName ln]"
  by (auto simp: line_object_spec_def)

lemma line_objects_keys:
  "those (map line_object_spec lns) = Some los \<Longrightarrow>
   map (map fst) los = map (\<lambda>ln. [lineName ln]) lns"
  by (induction lns arbitrary: los) (auto split: option.splits dest: line_object_keys)

lemma fragment_lines_keys:
  "fragment_lines_spec tf = Some los \<Longrightarrow> map (map fst) los = map (\<lambda>ln. [lineName ln]) (lines tf)"
  unfolding fragment_lines_spec_def by (rule line_objects_keys)

lemma simplified_fragments_put_all:
  "for_each simplified_fragment fs obj =
     (case those (map fragment_lines_spec fs) of
        None \<Rightarrow> Inl (KeyError (py ''character''))
      | Some lss \<Rightarrow> Inr (put_all (zip (map textFragmentName fs) lss) obj))"
proof (induction fs arbitrary: obj)
  case Nil
  show ?case by (simp add: put_all_def)
next
  case (Cons tf fs)
  have step: "simplified_fragment tf obj =
     (case fragment_lines_spec tf of
        None \<Rightarrow> Inl (KeyError (py ''character''))
      | Some los \<Rightarrow> Inr (AList.update (textFragmentName tf) los obj))"
    by (rule simplified_fragment_lines)
  show ?case
    by (cases "fragment_lines_spec tf")
      (simp_all add: step Cons.IH put_all_def split: option.splits)
qed

lemma map_of_put_all: "map_of (put_all kvs d) = map_of d ++ map_of (rev kvs)"
proof (induction kvs arbitrary: d)
  case Nil
  show ?case by (simp add: put_all_def)
next
  case (Cons kv kvs)
  obtain k v where kv: "kv = (k, v)" by (cases kv)
  have "map_of (put_all (kv # kvs) d) = map_of (put_all kvs (AList.update k v d))"
    by (simp add: put_all_def kv)
  also have "\<dots> = map_of (AList.update k v d) ++ map_of (rev kvs)"
    by (rule Cons.IH)
  also have "\<dots> = map_of d ++ map_of (rev (kv # kvs))"
    by (simp add: update_conv' kv map_add_upd_left fun_eq_iff map_add_def split: option.splits)
  finally show ?case .
qed

lemma those_None_iff: "those (map g xs) = None \<longleftrightarrow> (\<exists>x \<in> set xs. g x = None)"
  by (induction xs) (auto split: option.splits)

lemma fragment_text_None: "fragment_text_spec tf = None \<longleftrightarrow> fragment_lines_spec tf = None"
proof -
  have "those (map line_text_spec (lines tf)) = None \<longleftrightarrow> those (map line_object_spec (lines tf)) = None"
    by (simp add: those_None_iff line_text_render)
  then show ?thesis
    by (simp add: fragment_text_spec_def fragment_lines_spec_def)
qed

lemma simplifiedTextObject_put_all:
  "simplifiedTextObject text =
     (case those (map fragment_lines_spec (textFragments text)) of
        None \<Rightarrow> Inl (KeyError (py ''character''))
      | Some lss \<Rightarrow> Inr (put_all (zip (map textFragmentName (textFragments text)) lss) []))"
  unfolding simplifiedTextObject_def by (rule simplified_fragments_put_all)

lemma fail_together: "simplifiedTextObject text = Inl e \<longleftrightarrow> readFragments text = Inl e"
proof -
  have "those (map fragment_lines_spec (textFragments text)) = None
      \<longleftrightarrow> those (map fragment_text_spec (textFragments text)) = None"
    by (simp add: those_None_iff fragment_text_None)
  then show ?thesis
    by (auto simp: simplifiedTextObject_put_all readFragments_text toPlainText_spec_def
        split: option.splits)
qed

lemma those_Some_the:
  "those (map g xs) = Some ys \<Longrightarrow> ys = map (\<lambda>x. the (g x)) xs \<and> (\<forall>x \<in> set xs. g x \<noteq> None)"
  by (induction xs arbitrary: ys) (auto split: option.splits)

lemma map_of_last_binding:
  assumes "k x \<notin> k ` set ys"
  shows "map_of (rev (map (\<lambda>x. (k x, h x)) (xs @ x # ys))) (k x) = Some (h x)"
proof -
  have "map_of (rev (map (\<lambda>x. (k x, h x)) ys)) (k x) = None"
    using assms by (simp add: map_of_eq_None_iff image_image)
  then show ?thesis
    by (simp add: map_add_def)
qed

lemma simplifiedTextObject_entry:
  assumes "textFragments text = before @ tf # after"
    and "textFragmentName tf \<notin> textFragmentName ` set after"
    and "simplifiedTextObject text = Inr obj"
  shows "\<exists>los. fragment_lines_spec tf = Some los \<and> map_of obj (textFragmentName tf) = Some los"
proof -
  from assms(3) obtain lss
    where lss: "those (map fragment_lines_spec (textFragments text)) = Some lss"
      and obj: "obj = put_all (zip (map textFragmentName (textFragments text)) lss) []"
    by (auto simp: simplifiedTextObject_put_all split: option.splits)
  from those_Some_the [OF lss]
  have eq: "lss = map (\<lambda>x. the (fragment_lines_spec x)) (textFragments text)"
    and ok: "\<forall>x \<in> set (textFragments text). fragment_lines_spec x \<noteq> None"
    by simp_all
  from ok assms(1) obtain los where los: "fragment_lines_spec tf = Some los"
    by auto
  have "zip (map textFragmentName (textFragments text)) lss =
      map (\<lambda>x. (textFragmentName x, the (fragment_lines_spec x))) (textFragments text)"
    unfolding eq by (simp add: zip_map_map zip_same_conv_map)
  then have "map_of obj (textFragmentName tf) =
      map_of (rev (map (\<lambda>x. (textFragmentName x, the (fragment_lines_spec x))) (before @ tf # after)))
        (textFragmentName tf)"
    by (simp add: obj map_of_put_all assms(1))
  also have "\<dots> = Some (the (fragment_lines_spec tf))"
    using assms(2) by (rule map_of_last_binding)
  finally show ?thesis
    by (simp add: los)
qed

subsection \<open>The tree of a text object and its rendering\<close>

lemma update_fresh: "k \<notin> fst ` set d \<Longrightarrow> AList.update k v d = d @ [(k, v)]"
  by (induction d) auto

lemma put_all_fresh:
  "distinct (map fst kvs) \<Longrightarrow> fst ` set kvs \<inter> fst ` set d = {} \<Longrightarrow> put_all kvs d = d @ kvs"
proof (induction kvs arbitrary: d)
  case Nil
  show ?case by (simp add: put_all_def)
next
  case (Cons kv kvs)
  obtain k v where kv: "kv = (k, v)" by (cases kv)
  from Cons.prems have fresh: "k \<notin> fst ` set d" and rest: "distinct (map fst kvs)"
    and disj: "fst ` set kvs \<inter> fst ` set (d @ [(k, v)]) = {}"
    by (auto simp: kv)
  have "put_all (kv # kvs) d = put_all kvs (d @ [(k, v)])"
    by (simp add: put_all_def kv update_fresh [OF fresh])
  also have "\<dots> = (d @ [(k, v)]) @ kvs"
    using rest disj by (rule Cons.IH)
  finally show ?case by (simp add: kv)
qed

lemma those_length: "those xs = Some ys \<Longrightarrow> length ys = length xs"
  by (induction xs arbitrary: ys) (auto split: option.splits)

lemma those_list_all2: "those (map g xs) = Some ys \<Longrightarrow> list_all2 (\<lambda>x y. g x = Some y) xs ys"
  by (induction xs arbitrary: ys) (auto split: option.splits)

lemma those_zip:
  "those (map (\<lambda>x. map_option (f (k x)) (g x)) xs) =
   map_option (\<lambda>ys. map (\<lambda>(n, y). f n y) (zip (map k xs) ys)) (those (map g xs))"
  by (induction xs) (auto split: option.splits simp: option.map_comp comp_def)

lemma line_object_simplified: "line_object_spec ln = Some lo \<Longrightarrow> simplified_line ln = Inr lo"
  by (auto simp: line_object_spec_def simplified_line_chars)

lemma fragment_lines_simplified:
  assumes "fragment_lines_spec tf = Some los"
  shows "list_all2 (\<lambda>ln lo. simplified_line ln = Inr lo) (lines tf) los"
proof -
  from assms have "list_all2 (\<lambda>ln lo. line_object_spec ln = Some lo) (lines tf) los"
    unfolding fragment_lines_spec_def by (rule those_list_all2)
  then show ?thesis
    by (rule list_all2_mono) (rule line_object_simplified)
qed

lemma fragment_text_render:
  "fragment_text_spec tf =
     map_option (\<lambda>los. py ''\<newline>Text fragment '' @ textFragmentName tf @ py '':\<newline>'' @ render_lines los)
       (fragment_lines_spec tf)"
proof -
  have "those (map line_text_spec (lines tf)) = map_option (map render_line_object) (fragment_lines_spec tf)"
    unfolding fragment_lines_spec_def line_text_render by (rule those_map_option)
  then show ?thesis
    by (simp add: fragment_text_spec_def render_lines_def option.map_comp comp_def)
qed

lemma toPlainText_render:
  "toPlainText_spec text =
     map_option (\<lambda>lss. render_tree (zip (map textFragmentName (textFragments text)) lss))
       (those (map fragment_lines_spec (textFragments text)))"
proof -
  have "those (map fragment_text_spec (textFragments text)) =
      map_option
        (\<lambda>lss. map (\<lambda>(n, los). py ''\<newline>Text fragment '' @ n @ py '':\<newline>'' @ render_lines los)
           (zip (map textFragmentName (textFragments text)) lss))
        (those (map fragment_lines_spec (textFragments text)))"
    unfolding fragment_text_render
    by (rule those_zip [where f = "\<lambda>n los. py ''\<newline>Text fragment '' @ n @ py '':\<newline>'' @ render_lines los"])
  then show ?thesis
    by (simp add: toPlainText_spec_def render_tree_def option.map_comp comp_def)
qed

lemma serializers_document:
  "case simplifiedTextObject text of
     Inl e \<Rightarrow> readFragments text = Inl e
   | Inr tree \<Rightarrow>
       \<exists>lss.
         list_all2 (\<lambda>tf los. list_all2 (\<lambda>ln lo. simplified_line ln = Inr lo) (lines tf) los)
           (textFragments text) lss \<and>
         tree = put_all (zip (map textFragmentName (textFragments text)) lss) [] \<and>
         readFragments text = Inr (render_tree (zip (map textFragmentName (textFragments text)) lss)) \<and>
         (distinct (map textFragmentName (textFragments text)) \<longrightarrow>
            tree = zip (map textFragmentName (textFragments text)) lss)"
proof (cases "those (map fragment_lines_spec (textFragments text))")
  case None
  then show ?thesis
    by (simp add: simplifiedTextObject_put_all readFragments_text toPlainText_render)
next
  case (Some lss)
  let ?names = "map textFragmentName (textFragments text)"
  have len: "length lss = length (textFragments text)"
    using Some by (rule those_length [THEN trans]) simp
  have "list_all2 (\<lambda>tf los. fragment_lines_spec tf = Some los) (textFragments text) lss"
    using Some by (rule those_list_all2)
  then have all: "list_all2 (\<lambda>tf los. list_all2 (\<lambda>ln lo. simplified_line ln = Inr lo) (lines tf) los)
      (textFragments text) lss"
    by (rule list_all2_mono) (rule fragment_lines_simplified)
  have "distinct ?names \<Longrightarrow> put_all (zip ?names lss) [] = [] @ zip ?names lss"
    by (rule put_all_fresh) (simp_all add: len)
  then have dist: "distinct ?names \<longrightarrow> put_all (zip ?names lss) [] = zip ?names lss"
    by simp
  show ?thesis
    using all dist
    by (auto simp: simplifiedTextObject_put_all readFragments_text toPlainText_render Some intro!: exI [of _ lss])
qed

subsection \<open>Serializing a concatenation\<close>

text \<open>
  The text of a list of fragments is the concatenation of the texts of its parts: nothing
  is inserted or doubled where they meet.
\<close>

lemma those_append:
  "those (xs @ ys) =
     (case those xs of None \<Rightarrow> None
      | Some as \<Rightarrow> (case those ys of None \<Rightarrow> None | Some bs \<Rightarrow> Some (as @ bs)))"
  by (induction xs) (auto split: option.splits)

lemma readFragments_append:
  "readFragments \<lparr>textFragments = fs1 @ fs2\<rparr> =
     (case readFragments \<lparr>textFragments = fs1\<rparr> of
        Inl e \<Rightarrow> Inl e
      | Inr t1 \<Rightarrow>
          (case readFragments \<lparr>textFragments = fs2\<rparr> of
             Inl e \<Rightarrow> Inl e
           | Inr t2 \<Rightarrow> Inr (t1 @ t2)))"
  by (simp add: readFragments_text toPlainText_spec_def those_append split: option.splits)

section \<open>Properties\<close>

text \<open>
  C1, as stated, fails. The claim: the default order realized in the plain-text pass has
  exactly one interpretation per sign, the first listed. On a line whose only sign has two
  interpretations, he and het, \<open>readSigns\<close> appends both characters, where the first
  listed interpretation alone gives he only.
\<close>

theorem ambiguous_line_both_readings:
  "readSigns ambiguous_line [] = Inr [1492, 1495] \<and>
   for_each readSigns_body (defaultOrder_spec ambiguous_line) [] = Inr [1492] \<and>
   length (interpretations ambiguous_line) = 2 \<and> length (signs ambiguous_line) = 1"
  by (simp add: readSigns_def ambiguous_line_def readSigns_body_def defaultOrder_spec_def
      interpretations_def)

text \<open>
  C1, amended. The plain-text pass visits every interpretation of every sign: the signs in
  the line's given order and, within a sign, the interpretations in the order listed. Where
  every sign of the line has exactly one interpretation, these are exactly one
  interpretation per sign, the first listed, in sign order.
\<close>

theorem readSigns_order:
  "readSigns ln s = for_each readSigns_body (interpretations ln) s \<and>
   ((\<forall>sg \<in> set (signs ln). length (signInterpretations sg) = 1) \<longrightarrow>
      interpretations ln = defaultOrder_spec ln \<and>
      length (interpretations ln) = length (signs ln))"
proof -
  have same: "(\<forall>sg \<in> set sgs. length (signInterpretations sg) = 1) \<Longrightarrow>
      concat (map signInterpretations sgs) = concat (map (\<lambda>sg. take 1 (signInterpretations sg)) sgs)"
    for sgs :: "sign list"
    by (induction sgs) simp_all
  have count: "(\<forall>sg \<in> set sgs. length (signInterpretations sg) = 1) \<Longrightarrow>
      length (concat (map signInterpretations sgs)) = length sgs"
    for sgs :: "sign list"
    by (induction sgs) simp_all
  show ?thesis
    using same [of "signs ln"] count [of "signs ln"]
    by (simp add: readSigns_def interpretations_def defaultOrder_spec_def for_each_concat)
qed

theorem readSigns_order_witness:
  "map (\<lambda>sg. length (signInterpretations sg)) (signs example_line) = [1, 1, 1] \<and>
   readSigns example_line [] = for_each readSigns_body (defaultOrder_spec example_line) [] \<and>
   length (defaultOrder_spec example_line) = 3"
proof -
  have h: "\<forall>sg \<in> set (signs example_line). length (signInterpretations sg) = 1"
    by (simp add: example_line_def kaf_letter_def empty_space_def reconstructed_lamed_def)
  have n: "length (signs example_line) = 3"
    by (simp add: example_line_def kaf_letter_def empty_space_def reconstructed_lamed_def)
  from readSigns_order [of example_line "[]"] h
  have "readSigns example_line [] = for_each readSigns_body (interpretations example_line) []"
    and "interpretations example_line = defaultOrder_spec example_line"
    and "length (interpretations example_line) = length (signs example_line)"
    by blast+
  moreover have "map (\<lambda>sg. length (signInterpretations sg)) (signs example_line) = [1, 1, 1]"
    by (simp add: example_line_def)
  ultimately show ?thesis using n by simp
qed

text \<open>
  C2. In the plain-text serialization every interpretation that survives the filter appends
  its character when it is classified LETTER, one space when it is classified SPACE and
  nothing otherwise. The text of a line is \<open>line\<close>, the line's name, a colon and a
  newline, then the line's characters and a newline; the text of a fragment is a newline,
  \<open>Text fragment\<close>, the fragment's name, a colon and a newline, then the texts of its
  lines. The serialization raises \<open>KeyError\<close> exactly where a surviving LETTER
  interpretation has no character.
\<close>

theorem toPlainText_refines:
  "readSigns ln s =
     (case line_chars_spec ln of
        None \<Rightarrow> Inl (KeyError (py ''character''))
      | Some cs \<Rightarrow> Inr (s @ concat cs)) \<and>
   readLines textFragment s =
     (case those (map line_text_spec (lines textFragment)) of
        None \<Rightarrow> Inl (KeyError (py ''character''))
      | Some ts \<Rightarrow> Inr (s @ concat ts)) \<and>
   readFragments text =
     (case toPlainText_spec text of
        None \<Rightarrow> Inl (KeyError (py ''character''))
      | Some t \<Rightarrow> Inr t)"
  by (simp only: readSigns_chars readLines_text readFragments_text)

theorem toPlainText_refines_witness:
  "readFragments example_text =
     Inr (py ''\<newline>Text fragment frg. 1:\<newline>line 1:\<newline>'' @ [1499, 32] @ py ''\<newline>'')"
  using toPlainText_refines [of example_line "[]" "hd (textFragments example_text)" example_text]
  by (simp add: example_text_def example_line_def kaf_letter_def empty_space_def
      reconstructed_lamed_def toPlainText_spec_def fragment_text_spec_def line_text_spec_def
      line_chars_spec_def interpretations_def survives_spec_def appended_spec_def
      attributeValueIds_def)

text \<open>
  C3. An interpretation whose attribute list contains the attribute value id 20 is left out
  of both serializations, whatever else the list contains: the loop body of either
  serializer returns its state unchanged on it, and removing all such interpretations from
  a text object changes neither output.
\<close>

theorem reconstructed_excluded:
  "(20 \<in> set (map attributeValueId (attributes si)) \<longrightarrow>
      readSigns_body si s = Inr s \<and> simplified_interp ln si lineObject = Inr lineObject) \<and>
   readFragments (filter_text survives_spec text) = readFragments text \<and>
   simplifiedTextObject (filter_text survives_spec text) = simplifiedTextObject text"
proof -
  have "\<not> survives_spec x \<Longrightarrow> contribution x = Some []" for x
    by (simp add: contribution_def)
  from filter_text_same [OF this] show ?thesis
    by (simp add: readSigns_body_def simplified_interp_def)
qed

theorem reconstructed_excluded_witness:
  "20 \<in> set (map attributeValueId (attributes reconstructed_lamed)) \<and>
   readSigns_body reconstructed_lamed [1499, 32] = Inr [1499, 32] \<and>
   simplified_interp example_line reconstructed_lamed [(py ''1'', [[1499], [32]])] =
     Inr [(py ''1'', [[1499], [32]])] \<and>
   readFragments (filter_text survives_spec example_text) = readFragments example_text \<and>
   simplifiedTextObject (filter_text survives_spec example_text) = simplifiedTextObject example_text"
proof -
  have h: "20 \<in> set (map attributeValueId (attributes reconstructed_lamed))"
    by (simp add: reconstructed_lamed_def)
  with reconstructed_excluded
    [of reconstructed_lamed "[1499, 32]" example_line "[(py ''1'', [[1499], [32]])]" example_text]
  show ?thesis by blast
qed

text \<open>
  C4. For the line with the interpretations kaf (LETTER), empty (SPACE) and lamed (LETTER,
  reconstructed) in that order, the plain-text pass produces the line body kaf followed by
  one space: the reconstructed lamed is dropped and the SPACE interpretation contributes
  exactly one space.
\<close>

theorem example_line_body: "readSigns example_line [] = Inr [1499, 32]"
  by (simp add: readSigns_def readSigns_body_def example_line_def kaf_letter_def empty_space_def
      reconstructed_lamed_def)

text \<open>
  C5, as stated, fails. The claim: on every text object, each line's sequence in the
  structured tree concatenates to that line's characters in the plain text. Where two
  fragments bear the same name, the entry of the later one replaces the entry of the
  earlier one: the alef line of the first fragment is in the plain text and in no
  sequence of the tree.
\<close>

theorem duplicate_name_loses_line:
  "simplifiedTextObject dup_text = Inr [(py ''A'', [])] \<and>
   readFragments dup_text =
     Inr (py ''\<newline>Text fragment A:\<newline>line Col. II:\<newline>'' @ [1488] @
          py ''\<newline>\<newline>Text fragment A:\<newline>'')"
  by (simp add: simplifiedTextObject_def simplified_fragment_def simplified_line_step_def
      simplified_line_def simplified_interp_def dict_append_def dup_text_def alef_line_def
      readFragments_def readFragments_body_def readLines_def readLines_body_def readSigns_def
      readSigns_body_def)

text \<open>
  C5, amended. The two serializers filter and classify alike. For every line, the
  structured serializer yields the mapping from the line's name to the sequence of the
  line's filtered characters, whose concatenation is what the plain-text pass appends for
  that line, or both raise the same error. For every fragment, the structured serializer
  stores under the fragment's name the line mappings of its lines, in order, and the plain
  text of the fragment's lines is their rendering. For every text object, either both
  serializers raise the same error, or the plain text is the rendering of the sequence of
  the fragments' names with their line mappings, and the tree is that sequence entered name
  by name into a dictionary: where the fragment names are distinct the tree is that very
  sequence, so that every line's sequence in the tree concatenates to the line's characters
  in the plain text.
\<close>

theorem serializers_agree:
  "(case simplified_line ln of
      Inl e \<Rightarrow> readSigns ln s = Inl e
    | Inr lineObject \<Rightarrow>
        \<exists>cs. lineObject = [(lineName ln, cs)] \<and> line_chars_spec ln = Some cs \<and>
          readSigns ln s = Inr (s @ concat cs)) \<and>
   (case simplified_fragment textFragment tree of
      Inl e \<Rightarrow> readLines textFragment s = Inl e
    | Inr tree' \<Rightarrow>
        \<exists>lineObjects.
          tree' = AList.update (textFragmentName textFragment) lineObjects tree \<and>
          list_all2 (\<lambda>ln lo. simplified_line ln = Inr lo) (lines textFragment) lineObjects \<and>
          map (map fst) lineObjects = map (\<lambda>ln. [lineName ln]) (lines textFragment) \<and>
          readLines textFragment s = Inr (s @ render_lines lineObjects)) \<and>
   (case simplifiedTextObject text of
      Inl e \<Rightarrow> readFragments text = Inl e
    | Inr tree' \<Rightarrow>
        \<exists>lss.
          list_all2 (\<lambda>tf los. list_all2 (\<lambda>ln lo. simplified_line ln = Inr lo) (lines tf) los)
            (textFragments text) lss \<and>
          tree' = put_all (zip (map textFragmentName (textFragments text)) lss) [] \<and>
          readFragments text =
            Inr (render_tree (zip (map textFragmentName (textFragments text)) lss)) \<and>
          (distinct (map textFragmentName (textFragments text)) \<longrightarrow>
             tree' = zip (map textFragmentName (textFragments text)) lss)) \<and>
   (simplifiedTextObject text = Inl e \<longleftrightarrow> readFragments text = Inl e)"
proof -
  have "case simplified_line ln of
      Inl e \<Rightarrow> readSigns ln s = Inl e
    | Inr lineObject \<Rightarrow>
        \<exists>cs. lineObject = [(lineName ln, cs)] \<and> line_chars_spec ln = Some cs \<and>
          readSigns ln s = Inr (s @ concat cs)"
    by (simp add: simplified_line_chars readSigns_chars split: option.splits)
  moreover have "case simplified_fragment textFragment tree of
      Inl e \<Rightarrow> readLines textFragment s = Inl e
    | Inr tree' \<Rightarrow>
        \<exists>lineObjects.
          tree' = AList.update (textFragmentName textFragment) lineObjects tree \<and>
          list_all2 (\<lambda>ln lo. simplified_line ln = Inr lo) (lines textFragment) lineObjects \<and>
          map (map fst) lineObjects = map (\<lambda>ln. [lineName ln]) (lines textFragment) \<and>
          readLines textFragment s = Inr (s @ render_lines lineObjects)"
  proof (cases "fragment_lines_spec textFragment")
    case None
    then show ?thesis by (simp add: simplified_fragment_lines readLines_render)
  next
    case (Some los)
    from fragment_lines_keys [OF Some] fragment_lines_simplified [OF Some] show ?thesis
      by (auto simp: simplified_fragment_lines readLines_render Some intro!: exI [of _ los])
  qed
  moreover note serializers_document [of "text"]
  ultimately show ?thesis
    by (simp only: fail_together simp_thms)
qed

theorem serializers_agree_witness:
  "distinct (map textFragmentName (textFragments columns_text)) \<and>
   simplifiedTextObject columns_text =
     Inr [(py ''frg. 1'', [[(py ''Col. I'', [[1499], [32]])], [(py ''Col. II'', [[1488]])]])] \<and>
   readFragments columns_text =
     Inr (render_tree
       [(py ''frg. 1'', [[(py ''Col. I'', [[1499], [32]])], [(py ''Col. II'', [[1488]])]])])"
proof -
  let ?tree = "[(py ''frg. 1'', [[(py ''Col. I'', [[1499], [32]])], [(py ''Col. II'', [[1488]])]])]"
  have d: "distinct (map textFragmentName (textFragments columns_text))"
    by (simp add: columns_text_def)
  have t: "simplifiedTextObject columns_text = Inr ?tree"
    by (simp add: simplifiedTextObject_def columns_text_def columns_fragment_def
        simplified_fragment_def simplified_line_step_def simplified_line_def
        simplified_interp_def dict_append_def example_line_def kaf_letter_def empty_space_def
        reconstructed_lamed_def alef_line_def)
  from serializers_agree [where ?text = columns_text]
  have "case simplifiedTextObject columns_text of
      Inl e \<Rightarrow> readFragments columns_text = Inl e
    | Inr tree' \<Rightarrow>
        \<exists>lss.
          list_all2 (\<lambda>tf los. list_all2 (\<lambda>ln lo. simplified_line ln = Inr lo) (lines tf) los)
            (textFragments columns_text) lss \<and>
          tree' = put_all (zip (map textFragmentName (textFragments columns_text)) lss) [] \<and>
          readFragments columns_text =
            Inr (render_tree (zip (map textFragmentName (textFragments columns_text)) lss)) \<and>
          (distinct (map textFragmentName (textFragments columns_text)) \<longrightarrow>
             tree' = zip (map textFragmentName (textFragments columns_text)) lss)"
    by blast
  with d have "readFragments columns_text = Inr (render_tree ?tree)"
    unfolding t by auto
  with d t show ?thesis by simp
qed

text \<open>
  C6, as stated, fails. The claim: for a fragment with the two lines Col. I and Col. II the
  tree holds a mapping with exactly those two keys. The code stores a sequence of two
  mappings with one key each, not one mapping with both keys.
\<close>

theorem columns_tree_shape:
  "simplifiedTextObject columns_text =
     Inr [(py ''frg. 1'', [[(py ''Col. I'', [[1499], [32]])], [(py ''Col. II'', [[1488]])]])] \<and>
   simplifiedTextObject columns_text \<noteq>
     Inr [(py ''frg. 1'', [[(py ''Col. I'', [[1499], [32]]), (py ''Col. II'', [[1488]])]])]"
  by (simp add: simplifiedTextObject_def columns_text_def columns_fragment_def
      simplified_fragment_def simplified_line_step_def simplified_line_def simplified_interp_def
      dict_append_def example_line_def kaf_letter_def empty_space_def reconstructed_lamed_def
      alef_line_def)

text \<open>
  C6, amended. For a text fragment with exactly two lines named Col. I and Col. II, whose
  name no later fragment of the text object bears, the structured serializer stores under
  the fragment's name an ordered sequence of two mappings with one key each, first Col. I
  then Col. II, each key mapped to the sequence of that line's filtered characters; it
  raises an error only where the plain-text serializer raises the same.
\<close>

theorem columns_tree:
  assumes "textFragments text = before @ textFragment # after"
    and "textFragmentName textFragment \<notin> textFragmentName ` set after"
    and "lines textFragment = [l1, l2]"
    and "lineName l1 = py ''Col. I''" and "lineName l2 = py ''Col. II''"
  shows "case simplifiedTextObject text of
      Inl e \<Rightarrow> readFragments text = Inl e
    | Inr tree' \<Rightarrow>
        \<exists>cs1 cs2.
          map_of tree' (textFragmentName textFragment) =
            Some [[(py ''Col. I'', cs1)], [(py ''Col. II'', cs2)]] \<and>
          line_chars_spec l1 = Some cs1 \<and> line_chars_spec l2 = Some cs2 \<and>
          simplified_line l1 = Inr [(py ''Col. I'', cs1)] \<and>
          simplified_line l2 = Inr [(py ''Col. II'', cs2)] \<and>
          readSigns l1 [] = Inr (concat cs1) \<and> readSigns l2 [] = Inr (concat cs2)"
proof (cases "simplifiedTextObject text")
  case (Inl e)
  then have "readFragments text = Inl e" by (simp only: fail_together)
  with Inl show ?thesis by simp
next
  case (Inr obj)
  from simplifiedTextObject_entry [OF assms(1,2) Inr] obtain los
    where los: "fragment_lines_spec textFragment = Some los"
      and entry: "map_of obj (textFragmentName textFragment) = Some los"
    by blast
  from los obtain cs1 cs2
    where "line_chars_spec l1 = Some cs1" and "line_chars_spec l2 = Some cs2"
      and "los = [[(py ''Col. I'', cs1)], [(py ''Col. II'', cs2)]]"
    by (auto simp: fragment_lines_spec_def line_object_spec_def assms(3-5) split: option.splits)
  then show ?thesis
    by (simp add: Inr entry readSigns_chars simplified_line_chars assms(4,5))
qed

theorem columns_tree_witness:
  "textFragments columns_text = [] @ columns_fragment # [] \<and>
   lines columns_fragment = [example_line\<lparr>lineName := py ''Col. I''\<rparr>, alef_line] \<and>
   (case simplifiedTextObject columns_text of
      Inl e \<Rightarrow> readFragments columns_text = Inl e
    | Inr tree' \<Rightarrow>
        \<exists>cs1 cs2.
          map_of tree' (textFragmentName columns_fragment) =
            Some [[(py ''Col. I'', cs1)], [(py ''Col. II'', cs2)]] \<and>
          line_chars_spec (example_line\<lparr>lineName := py ''Col. I''\<rparr>) = Some cs1 \<and>
          line_chars_spec alef_line = Some cs2 \<and>
          simplified_line (example_line\<lparr>lineName := py ''Col. I''\<rparr>) = Inr [(py ''Col. I'', cs1)] \<and>
          simplified_line alef_line = Inr [(py ''Col. II'', cs2)] \<and>
          readSigns (example_line\<lparr>lineName := py ''Col. I''\<rparr>) [] = Inr (concat cs1) \<and>
          readSigns alef_line [] = Inr (concat cs2))"
proof -
  have h1: "textFragments columns_text = [] @ columns_fragment # []"
    by (simp add: columns_text_def)
  have h2: "textFragmentName columns_fragment \<notin> textFragmentName ` set []"
    by simp
  have h3: "lines columns_fragment = [example_line\<lparr>lineName := py ''Col. I''\<rparr>, alef_line]"
    by (simp add: columns_fragment_def)
  have h4: "lineName (example_line\<lparr>lineName := py ''Col. I''\<rparr>) = py ''Col. I''"
    by simp
  have h5: "lineName alef_line = py ''Col. II''"
    by (simp add: alef_line_def)
  from columns_tree [OF h1 h2 h3 h4 h5] h1 h3 show ?thesis
    by blast
qed

text \<open>
  C7. An attribute value id outside the table makes neither serializer fail and changes no
  output: removing all such attributes from a text object leaves both outputs, errors
  included, as they are, and an interpretation that carries only such ids contributes
  nothing to either.
\<close>

theorem unknown_attributes_ignored:
  "readFragments (map_text strip_unknown text) = readFragments text \<and>
   simplifiedTextObject (map_text strip_unknown text) = simplifiedTextObject text \<and>
   ((\<forall>a \<in> set (map attributeValueId (attributes si)). \<not> recognized a) \<longrightarrow>
      readSigns_body si s = Inr s \<and> simplified_interp ln si lineObject = Inr lineObject)"
proof -
  have "(\<forall>a \<in> set (map attributeValueId (attributes si)). \<not> recognized a) \<longrightarrow>
      readSigns_body si s = Inr s \<and> simplified_interp ln si lineObject = Inr lineObject"
  proof
    assume none: "\<forall>a \<in> set (map attributeValueId (attributes si)). \<not> recognized a"
    have "recognized 1" and "recognized 2" and "recognized 20"
      by (simp_all add: recognized_def)
    with none have "1 \<notin> set (map attributeValueId (attributes si))"
      and "2 \<notin> set (map attributeValueId (attributes si))"
      and "20 \<notin> set (map attributeValueId (attributes si))"
      by blast+
    then show "readSigns_body si s = Inr s \<and> simplified_interp ln si lineObject = Inr lineObject"
      by (simp add: readSigns_body_def simplified_interp_def)
  qed
  with map_text_same [of strip_unknown "text", OF contribution_strip_unknown] show ?thesis
    by blast
qed

theorem unknown_attributes_ignored_witness:
  "map attributeValueId (attributes foreign_only) = [99] \<and> \<not> recognized 99 \<and>
   readSigns_body foreign_only [1488] = Inr [1488] \<and>
   simplified_interp example_line foreign_only [(py ''1'', [[1488]])] = Inr [(py ''1'', [[1488]])] \<and>
   readFragments (map_text strip_unknown foreign_text) = readFragments foreign_text \<and>
   readFragments foreign_text =
     Inr (py ''\<newline>Text fragment frg. 1:\<newline>line 1:\<newline>'' @ [1488] @ py ''\<newline>'')"
proof -
  have out: "readFragments foreign_text =
     Inr (py ''\<newline>Text fragment frg. 1:\<newline>line 1:\<newline>'' @ [1488] @ py ''\<newline>'')"
    by (simp add: readFragments_def readFragments_body_def readLines_def readLines_body_def
        readSigns_def readSigns_body_def foreign_text_def foreign_alef_def foreign_only_def)
  have h: "\<forall>a \<in> set (map attributeValueId (attributes foreign_only)). \<not> recognized a"
    by (simp add: foreign_only_def recognized_def)
  with unknown_attributes_ignored
    [of foreign_text foreign_only "[1488]" example_line "[(py ''1'', [[1488]])]"]
  have "readSigns_body foreign_only [1488] = Inr [1488]"
    and "simplified_interp example_line foreign_only [(py ''1'', [[1488]])] = Inr [(py ''1'', [[1488]])]"
    and "readFragments (map_text strip_unknown foreign_text) = readFragments foreign_text"
    by blast+
  then show ?thesis
    by (simp add: out foreign_only_def recognized_def)
qed

text \<open>
  C8, as stated, fails. The claim: a line whose next-interpretation references contain a
  cycle is rejected. A line whose two interpretations name each other is serialized by both
  serializers without an error.
\<close>

theorem cyclic_line_serialized:
  "has_cycle cyclic_line \<and>
   readFragments cyclic_text =
     Inr (py ''\<newline>Text fragment frg. 1:\<newline>line 1:\<newline>'' @ [1488, 1489] @ py ''\<newline>'') \<and>
   simplifiedTextObject cyclic_text = Inr [(py ''frg. 1'', [[(py ''1'', [[1488], [1489]])]])]"
proof -
  have edges: "next_edges cyclic_line = [(1, 2), (2, 1)]"
    by (simp add: next_edges_def interpretations_def cyclic_line_def)
  have "(1, 1) \<in> (set [(1, 2), (2, 1 :: int)])\<^sup>+"
    by (rule trancl_into_trancl [of _ 2]) (simp_all add: r_into_trancl)
  then have "has_cycle cyclic_line"
    unfolding has_cycle_def edges by (intro bexI [where x = 1]) simp_all
  moreover have "readFragments cyclic_text =
     Inr (py ''\<newline>Text fragment frg. 1:\<newline>line 1:\<newline>'' @ [1488, 1489] @ py ''\<newline>'')"
    by (simp add: readFragments_def readFragments_body_def readLines_def readLines_body_def
        readSigns_def readSigns_body_def cyclic_text_def cyclic_line_def)
  moreover have "simplifiedTextObject cyclic_text = Inr [(py ''frg. 1'', [[(py ''1'', [[1488], [1489]])]])]"
    by (simp add: simplifiedTextObject_def simplified_fragment_def simplified_line_step_def
        simplified_line_def simplified_interp_def dict_append_def cyclic_text_def cyclic_line_def)
  ultimately show ?thesis by simp
qed

text \<open>
  C8, amended. The code makes no check of the next-interpretation references, for cycles or
  otherwise: both serializers ignore them, so that a text object gives the same outputs
  whatever its references are.
\<close>

theorem next_references_ignored:
  "readFragments (map_text (\<lambda>si. si\<lparr>nextSignInterpretations := refs si\<rparr>) text) = readFragments text \<and>
   simplifiedTextObject (map_text (\<lambda>si. si\<lparr>nextSignInterpretations := refs si\<rparr>) text) =
     simplifiedTextObject text"
  using map_text_same [of "\<lambda>si. si\<lparr>nextSignInterpretations := refs si\<rparr>" "text", OF contribution_next]
  by simp

theorem next_references_ignored_witness:
  "readFragments (map_text (\<lambda>si. si\<lparr>nextSignInterpretations := []\<rparr>) cyclic_text) =
     readFragments cyclic_text \<and>
   simplifiedTextObject (map_text (\<lambda>si. si\<lparr>nextSignInterpretations := []\<rparr>) cyclic_text) =
     simplifiedTextObject cyclic_text"
  by (rule next_references_ignored)



end
